theory Spec2Isabelle
  imports Complex_Main
begin

section \<open>Floating-point values\<close>

text \<open>
  The script \<^verbatim>\<open>plot_stft.py\<close> computes with IEEE-754 numbers: Python floats
  (binary64) for the parameters, \<^verbatim>\<open>float32\<close> (binary32) for the buffer read from
  \<^verbatim>\<open>stft_out.bin\<close> and for the magnitudes, and \<^verbatim>\<open>complex64\<close> (a pair of
  \<^verbatim>\<open>float32\<close>) for the spectrogram. A value is one of: negative zero, a finite number
  other than negative zero (\<open>Fin 0\<close> is positive zero), an infinity, or a NaN.

  Two families of operations follow. \<open>f_add\<close>, \<open>f_sub\<close> and \<open>f_mul\<close> treat the special
  values as IEEE-754 does and are exact on finite numbers; they are used by the complex
  arithmetic of \<open>decode\<close> only, where every product has a factor that is a zero or one
  and every sum a summand that is a zero, so that the exact result is the rounded one.
  The operations of the section on rounding (\<open>fl_add\<close>, \<open>fl_mul\<close>, \<open>fl_div\<close>,
  \<open>fl_hypot\<close>) round their result to a format and are used everywhere else.
\<close>

datatype ieee = NegZero | Fin real | PInf | NInf | NaN

fun val :: "ieee \<Rightarrow> real" where
  "val (Fin r) = r"
| "val _ = 0"

fun signbit :: "ieee \<Rightarrow> bool" where
  "signbit NegZero = True"
| "signbit (Fin r) = (r < 0)"
| "signbit NInf = True"
| "signbit _ = False"

fun is_inf :: "ieee \<Rightarrow> bool" where
  "is_inf PInf = True"
| "is_inf NInf = True"
| "is_inf _ = False"

fun is_zero :: "ieee \<Rightarrow> bool" where
  "is_zero NegZero = True"
| "is_zero (Fin r) = (r = 0)"
| "is_zero _ = False"

fun is_finite :: "ieee \<Rightarrow> bool" where
  "is_finite NegZero = True"
| "is_finite (Fin r) = True"
| "is_finite _ = False"

definition signed_zero :: "bool \<Rightarrow> ieee" where
  "signed_zero s = (if s then NegZero else Fin 0)"

definition signed_inf :: "bool \<Rightarrow> ieee" where
  "signed_inf s = (if s then NInf else PInf)"

definition f_neg :: "ieee \<Rightarrow> ieee" where
  "f_neg x = (case x of
      NegZero \<Rightarrow> Fin 0
    | Fin r \<Rightarrow> (if r = 0 then NegZero else Fin (- r))
    | PInf \<Rightarrow> NInf
    | NInf \<Rightarrow> PInf
    | NaN \<Rightarrow> NaN)"

definition f_add :: "ieee \<Rightarrow> ieee \<Rightarrow> ieee" where
  "f_add x y =
     (if x = NaN \<or> y = NaN then NaN
      else if is_inf x then (if is_inf y \<and> x \<noteq> y then NaN else x)
      else if is_inf y then y
      else if x = NegZero \<and> y = NegZero then NegZero
      else Fin (val x + val y))"

definition f_sub :: "ieee \<Rightarrow> ieee \<Rightarrow> ieee" where
  "f_sub x y = f_add x (f_neg y)"

definition f_mul :: "ieee \<Rightarrow> ieee \<Rightarrow> ieee" where
  "f_mul x y =
     (if x = NaN \<or> y = NaN then NaN
      else if is_inf x \<or> is_inf y then
        (if is_zero x \<or> is_zero y then NaN else signed_inf (signbit x \<noteq> signbit y))
      else if val x * val y = 0 then signed_zero (signbit x \<noteq> signbit y)
      else Fin (val x * val y))"

text \<open>
  A \<^verbatim>\<open>complex64\<close>, with NumPy's arithmetic on it: the sum adds the parts, the product
  is \<open>(ac - bd) + (ad + bc)i\<close>. A real operand is first converted to the complex number
  with imaginary part \<open>+0\<close>.
\<close>

datatype c64 = C64 (re: ieee) (im: ieee)

definition c_of_f32 :: "ieee \<Rightarrow> c64" where
  "c_of_f32 x = C64 x (Fin 0)"

definition imag_unit :: c64 where
  "imag_unit = C64 (Fin 0) (Fin 1)"

definition c_add :: "c64 \<Rightarrow> c64 \<Rightarrow> c64" where
  "c_add z w = C64 (f_add (re z) (re w)) (f_add (im z) (im w))"

definition c_mul :: "c64 \<Rightarrow> c64 \<Rightarrow> c64" where
  "c_mul z w =
     C64 (f_sub (f_mul (re z) (re w)) (f_mul (im z) (im w)))
         (f_add (f_mul (re z) (im w)) (f_mul (im z) (re w)))"

section \<open>Rounding to a binary format\<close>

text \<open>
  A binary format is given by its precision (the number of significand bits, the hidden
  one included) and its least and greatest exponents. Rounding is to the nearest
  representable number, a tie going to the one with an even significand (the default
  mode, which neither Python nor NumPy changes). \<open>exponent_of f x\<close> is the exponent of
  the binade a positive \<open>x\<close> lies in (the least exponent for a subnormal \<open>x\<close>), or
  \<open>None\<close> when \<open>x\<close> is beyond the format's range; the spacing of the representable
  numbers in that binade is \<open>pow2 (e - prec f + 1)\<close>. \<open>fl_round f s x\<close> is the rounded
  value of the real number \<open>x\<close>; \<open>s\<close> is the sign an exact zero gets.
\<close>

record format =
  prec :: nat
  emin :: int
  emax :: int

definition binary32 :: format where
  "binary32 = \<lparr>prec = 24, emin = - 126, emax = 127\<rparr>"

definition binary64 :: format where
  "binary64 = \<lparr>prec = 53, emin = - 1022, emax = 1023\<rparr>"

definition pow2 :: "int \<Rightarrow> real" where
  "pow2 k = (if 0 \<le> k then 2 ^ nat k else 1 / 2 ^ nat (- k))"

definition round_half_even :: "real \<Rightarrow> int" where
  "round_half_even r =
     (if r - of_int \<lfloor>r\<rfloor> < 1 / 2 then \<lfloor>r\<rfloor>
      else if 1 / 2 < r - of_int \<lfloor>r\<rfloor> then \<lfloor>r\<rfloor> + 1
      else if even \<lfloor>r\<rfloor> then \<lfloor>r\<rfloor>
      else \<lfloor>r\<rfloor> + 1)"

definition exponent_of :: "format \<Rightarrow> real \<Rightarrow> int option" where
  "exponent_of f x = List.find (\<lambda>k. x < pow2 (k + 1)) [emin f..emax f]"

definition fl_round :: "format \<Rightarrow> bool \<Rightarrow> real \<Rightarrow> ieee" where
  "fl_round f s x =
     (if x = 0 then signed_zero s
      else
        (case exponent_of f \<bar>x\<bar> of
           None \<Rightarrow> signed_inf (x < 0)
         | Some e \<Rightarrow>
             (let q = pow2 (e - int (prec f) + 1);
                  n = round_half_even (\<bar>x\<bar> / q)
              in if n = 0 then signed_zero (x < 0)
                 else if pow2 (emax f + 1) \<le> of_int n * q then signed_inf (x < 0)
                 else Fin ((if x < 0 then - 1 else 1) * (of_int n * q)))))"


definition fl_mul :: "format \<Rightarrow> ieee \<Rightarrow> ieee \<Rightarrow> ieee" where
  "fl_mul f x y =
     (if x = NaN \<or> y = NaN then NaN
      else if is_inf x \<or> is_inf y then
        (if is_zero x \<or> is_zero y then NaN else signed_inf (signbit x \<noteq> signbit y))
      else fl_round f (signbit x \<noteq> signbit y) (val x * val y))"



section \<open>Errors\<close>

text \<open>
  The exceptions the modelled lines can raise. NumPy reports a shape that does not fit
  the array as a \<^verbatim>\<open>ValueError\<close>; \<^verbatim>\<open>int\<close> of a NaN is a \<^verbatim>\<open>ValueError\<close> and of
  an infinity an \<^verbatim>\<open>OverflowError\<close>; \<^verbatim>\<open>//\<close> by zero is a \<^verbatim>\<open>ZeroDivisionError\<close>.
\<close>

datatype error = ValueError | OverflowError | ZeroDivisionError

section \<open>Reshaping\<close>

text \<open>
  \<^verbatim>\<open>data.reshape((outsize, fftsize // 2, 2))\<close>. NumPy first resolves the requested
  shape against the number of elements: a negative entry (documented as \<open>-1\<close>) stands
  for the one dimension to infer, which is the size divided by the product of the other
  entries when that division is exact; with no such entry the product must be the size.
  Then it reads the flat array in row-major order.
\<close>

definition fix_unknown_dimension :: "int list \<Rightarrow> nat \<Rightarrow> error + nat list" where
  "fix_unknown_dimension dimensions s_original =
     (let s_known = prod_list (filter (\<lambda>d. \<not> d < 0) dimensions);
          n_unknown = length (filter (\<lambda>d. d < 0) dimensions)
      in if 1 < n_unknown then Inl ValueError
         else if n_unknown = 1 then
           (if s_known = 0 \<or> int s_original mod s_known \<noteq> 0 then Inl ValueError
            else Inr (map (\<lambda>d. nat (if d < 0 then int s_original div s_known else d))
                       dimensions))
         else (if int s_original \<noteq> s_known then Inl ValueError
               else Inr (map nat dimensions)))"

definition reshape3 :: "'a list \<Rightarrow> int \<times> int \<times> int \<Rightarrow> error + 'a list list list" where
  "reshape3 a newshape =
     (case newshape of (d0, d1, d2) \<Rightarrow>
        (case fix_unknown_dimension [d0, d1, d2] (length a) of
           Inl e \<Rightarrow> Inl e
         | Inr dims \<Rightarrow>
             (let n0 = dims ! 0; n1 = dims ! 1; n2 = dims ! 2
              in Inr (map (\<lambda>i. map (\<lambda>j. map (\<lambda>k. a ! ((i * n1 + j) * n2 + k)) [0..<n2])
                                  [0..<n1]) [0..<n0]))))"

section \<open>Decoding the spectrogram\<close>

text \<open>
  \<^verbatim>\<open>data[..., k]\<close> selects component \<open>k\<close> of the innermost axis; \<^verbatim>\<open>1j * a\<close> multiplies
  every element of a real array by a complex scalar; \<^verbatim>\<open>a + b\<close> adds a real array and
  a complex array of the same shape element by element.
\<close>

definition last_axis :: "nat \<Rightarrow> 'a list list list \<Rightarrow> 'a list list" where
  "last_axis k data = map (map (\<lambda>pair. pair ! k)) data"

definition scalar_mul :: "c64 \<Rightarrow> ieee list list \<Rightarrow> c64 list list" where
  "scalar_mul z a = map (map (\<lambda>x. c_mul z (c_of_f32 x))) a"

definition add_arrays :: "ieee list list \<Rightarrow> c64 list list \<Rightarrow> c64 list list" where
  "add_arrays a b = map2 (map2 (\<lambda>x w. c_add (c_of_f32 x) w)) a b"

text \<open>
  Lines 19 and 20 of the script, as a function of the buffer and the two leading
  dimensions (\<^verbatim>\<open>outsize\<close> and \<^verbatim>\<open>fftsize // 2\<close>).
\<close>

definition decode :: "ieee list \<Rightarrow> int \<Rightarrow> int \<Rightarrow> error + c64 list list" where
  "decode buffer frame_count bin_count =
     (case reshape3 buffer (frame_count, bin_count, 2) of
        Inl e \<Rightarrow> Inl e
      | Inr data \<Rightarrow>
          Inr (add_arrays (last_axis 0 data) (scalar_mul imag_unit (last_axis 1 data))))"

section \<open>The framing parameters\<close>

text \<open>
  Lines 5 to 12. \<^verbatim>\<open>sample_rate\<close> and \<^verbatim>\<open>duration\<close> are Python floats, the other
  three are Python integers (unbounded). The product and the quotient of two floats are
  rounded to a float; \<^verbatim>\<open>int\<close> of a float drops the fractional part (it rounds
  toward zero); \<^verbatim>\<open>//\<close> on integers is the floor of the quotient.
\<close>

record params =
  sample_rate :: ieee
  duration :: ieee
  hop :: int
  win :: int
  fftsize :: int

definition default_params :: params where
  "default_params =
     \<lparr>sample_rate = Fin 8000, duration = Fin 1, hop = 128, win = 256, fftsize = 256\<rparr>"

definition py_int :: "ieee \<Rightarrow> error + int" where
  "py_int x = (case x of
      NaN \<Rightarrow> Inl ValueError
    | PInf \<Rightarrow> Inl OverflowError
    | NInf \<Rightarrow> Inl OverflowError
    | NegZero \<Rightarrow> Inr 0
    | Fin r \<Rightarrow> Inr (if 0 \<le> r then \<lfloor>r\<rfloor> else \<lceil>r\<rceil>))"

definition py_floordiv :: "int \<Rightarrow> int \<Rightarrow> error + int" where
  "py_floordiv a b = (if b = 0 then Inl ZeroDivisionError else Inr (a div b))"


definition signal_len :: "params \<Rightarrow> error + int" where
  "signal_len p = py_int (fl_mul binary64 (sample_rate p) (duration p))"

definition outsize :: "params \<Rightarrow> error + int" where
  "outsize p =
     (case signal_len p of
        Inl e \<Rightarrow> Inl e
      | Inr n \<Rightarrow>
          (case py_floordiv (n - win p) (hop p) of
             Inl e \<Rightarrow> Inl e
           | Inr q \<Rightarrow> Inr (q + 1)))"

text \<open>
  Lines 18 to 20 with the script's own dimensions: the content of \<^verbatim>\<open>stft_out.bin\<close>,
  read as \<^verbatim>\<open>float32\<close> values, is decoded with \<^verbatim>\<open>outsize\<close> frames and
  \<^verbatim>\<open>fftsize // 2\<close> bins.
\<close>

definition load_stft :: "params \<Rightarrow> ieee list \<Rightarrow> error + c64 list list" where
  "load_stft p file =
     (case outsize p of
        Inl e \<Rightarrow> Inl e
      | Inr n \<Rightarrow> decode file n (fftsize p div 2))"

section \<open>Magnitude and decibels\<close>

text \<open>
  Line 23: \<^verbatim>\<open>np.abs\<close> of a \<^verbatim>\<open>complex64\<close> is the \<^verbatim>\<open>float32\<close> hypotenuse of its
  parts: \<open>+\<infinity>\<close> as soon as one part is infinite, a NaN when one part is a NaN and none
  is infinite, and otherwise the square root of the sum of the squares, taken here as
  correctly rounded (it overflows to \<open>+\<infinity>\<close> beyond the range of the format).
\<close>

definition fl_hypot :: "format \<Rightarrow> ieee \<Rightarrow> ieee \<Rightarrow> ieee" where
  "fl_hypot f x y =
     (if is_inf x \<or> is_inf y then PInf
      else if x = NaN \<or> y = NaN then NaN
      else fl_round f False (sqrt ((val x)\<^sup>2 + (val y)\<^sup>2)))"

definition magnitude :: "c64 \<Rightarrow> ieee" where
  "magnitude z = fl_hypot binary32 (re z) (im z)"

definition np_abs :: "c64 list list \<Rightarrow> ieee list list" where
  "np_abs a = map (map magnitude) a"





text \<open>The comparison \<open>x \<le> y\<close> of two values: false as soon as one is a NaN.\<close>

definition f_le :: "ieee \<Rightarrow> ieee \<Rightarrow> bool" where
  "f_le x y =
     (if x = NaN \<or> y = NaN then False
      else if x = NInf \<or> y = PInf then True
      else if x = PInf \<or> y = NInf then False
      else val x \<le> val y)"

section \<open>Two-dimensional arrays\<close>





section \<open>The spectrogram figure\<close>





section \<open>The producer's layout\<close>

text \<open>
  The script has no encoder: \<^verbatim>\<open>stft_out.bin\<close> is written by an external producer.
  \<open>spec_encode\<close> is the layout the specification gives for that file, used to state the
  round trip: a complex matrix is written as the flat sequence of its (real, imaginary)
  pairs, frame after frame and, within a frame, bin after bin. \<open>rectangular n0 n1 m\<close>
  says that \<open>m\<close> has \<open>n0\<close> rows of \<open>n1\<close> elements each.
\<close>

definition spec_encode :: "c64 list list \<Rightarrow> ieee list" where
  "spec_encode m = concat (map (\<lambda>row. concat (map (\<lambda>z. [re z, im z]) row)) m)"

definition rectangular :: "nat \<Rightarrow> nat \<Rightarrow> 'a list list \<Rightarrow> bool" where
  "rectangular n0 n1 m = (length m = n0 \<and> list_all (\<lambda>row. length row = n1) m)"

section \<open>The decoder on a store\<close>

text \<open>
  NumPy arrays are objects. \<^verbatim>\<open>np.fromfile\<close> allocates the buffer; \<^verbatim>\<open>reshape\<close> of
  that contiguous array and \<^verbatim>\<open>data[..., k]\<close> return views onto the same buffer, with
  no copy; the product and the sum of line 20 each allocate their result. The store
  holds the \<^verbatim>\<open>float32\<close> buffers and the \<^verbatim>\<open>complex64\<close> arrays by address (an address
  never allocated holds the empty array), and the next address to allocate.
\<close>

type_synonym addr = nat

record store =
  f32_mem :: "addr \<Rightarrow> ieee list"
  c64_mem :: "addr \<Rightarrow> c64 list list"
  next_free :: addr

record view =
  base :: addr
  dims :: "nat list"

definition st_last_axis :: "store \<Rightarrow> view \<Rightarrow> nat \<Rightarrow> ieee list list" where
  "st_last_axis s v k =
     (let n0 = dims v ! 0; n1 = dims v ! 1; n2 = dims v ! 2
      in map (\<lambda>i. map (\<lambda>j. f32_mem s (base v) ! ((i * n1 + j) * n2 + k)) [0..<n1]) [0..<n0])"

definition st_alloc_c64 :: "c64 list list \<Rightarrow> store \<Rightarrow> addr \<times> store" where
  "st_alloc_c64 a s =
     (next_free s,
      s\<lparr>c64_mem := (c64_mem s)(next_free s := a), next_free := Suc (next_free s)\<rparr>)"

definition st_decode :: "store \<Rightarrow> addr \<Rightarrow> int \<Rightarrow> int \<Rightarrow> error + addr \<times> store" where
  "st_decode s a frame_count bin_count =
     (case fix_unknown_dimension [frame_count, bin_count, 2] (length (f32_mem s a)) of
        Inl e \<Rightarrow> Inl e
      | Inr ds \<Rightarrow>
          (let data = \<lparr>base = a, dims = ds\<rparr>;
               (t, s1) = st_alloc_c64 (scalar_mul imag_unit (st_last_axis s data 1)) s;
               (r, s2) = st_alloc_c64 (add_arrays (st_last_axis s1 data 0) (c64_mem s1 t)) s1
           in Inr (r, s2)))"

text \<open>What a run returns: the error, or the array \<^verbatim>\<open>complex_data\<close> is bound to.\<close>

definition outcome :: "error + addr \<times> store \<Rightarrow> error + c64 list list" where
  "outcome res = (case res of Inl e \<Rightarrow> Inl e | Inr (r, s) \<Rightarrow> Inr (c64_mem s r))"

section \<open>Resolving the shape\<close>

lemma fix_unknown_dimension_exact:
  "fix_unknown_dimension [int n0, int n1, 2] s =
     (if s = n0 * n1 * 2 then Inr [n0, n1, 2] else Inl ValueError)"
proof -
  have "int n0 * (int n1 * 2) = int (n0 * n1 * 2)"
    by simp
  then have "(int s = int n0 * (int n1 * 2)) = (s = n0 * n1 * 2)"
    by (simp only: of_nat_eq_iff)
  then show ?thesis
    by (simp add: fix_unknown_dimension_def Let_def)
qed

lemma reshape3_exact:
  "reshape3 a (int n0, int n1, 2) =
     (if length a = n0 * n1 * 2
      then Inr (map (\<lambda>i. map (\<lambda>j. map (\<lambda>k. a ! ((i * n1 + j) * 2 + k)) [0..<2]) [0..<n1])
                 [0..<n0])
      else Inl ValueError)"
  by (simp add: reshape3_def fix_unknown_dimension_exact)

lemma decode_exact:
  "decode buffer (int n0) (int n1) =
     (if length buffer = n0 * n1 * 2
      then Inr (map (\<lambda>i. map (\<lambda>j.
                  c_add (c_of_f32 (buffer ! ((i * n1 + j) * 2)))
                        (c_mul imag_unit (c_of_f32 (buffer ! ((i * n1 + j) * 2 + 1)))))
                  [0..<n1]) [0..<n0])
      else Inl ValueError)"
proof -
  have two: "[0..<2] = [0, Suc 0]"
    by (simp add: upt_rec)
  have m2: "map2 f (map g xs) (map h xs) = map (\<lambda>x. f (g x) (h x)) xs" for f g h and xs :: "nat list"
    by (induction xs) simp_all
  show ?thesis
    by (simp add: decode_def reshape3_exact last_axis_def scalar_mul_def add_arrays_def
        two m2 comp_def)
qed

lemma decode_of_dims:
  assumes "fix_unknown_dimension [fc, bc, 2] (length buffer) = Inr [n0, n1, 2]"
  shows "decode buffer fc bc =
     Inr (map (\<lambda>i. map (\<lambda>j.
            c_add (c_of_f32 (buffer ! ((i * n1 + j) * 2)))
                  (c_mul imag_unit (c_of_f32 (buffer ! ((i * n1 + j) * 2 + 1)))))
            [0..<n1]) [0..<n0])"
proof -
  have two: "[0..<2] = [0, Suc 0]"
    by (simp add: upt_rec)
  have m2: "map2 f (map g xs) (map h xs) = map (\<lambda>x. f (g x) (h x)) xs" for f g h and xs :: "nat list"
    by (induction xs) simp_all
  show ?thesis
    using assms
    by (simp add: decode_def reshape3_def last_axis_def scalar_mul_def add_arrays_def
        two m2 comp_def)
qed

lemma decode_of_error:
  "fix_unknown_dimension [fc, bc, 2] (length buffer) = Inl e \<Longrightarrow> decode buffer fc bc = Inl e"
  by (simp add: decode_def reshape3_def)

lemma fix_unknown_dimension_frames:
  assumes "fc < 0"
  shows "fix_unknown_dimension [fc, int n1, 2] s =
     (if n1 = 0 \<or> s mod (n1 * 2) \<noteq> 0 then Inl ValueError else Inr [s div (n1 * 2), n1, 2])"
proof -
  have a: "int n1 * 2 = int (n1 * 2)"
    by simp
  have m: "int s mod int (n1 * 2) = int (s mod (n1 * 2))"
    by (simp only: zmod_int)
  have d: "int s div int (n1 * 2) = int (s div (n1 * 2))"
    by (simp only: zdiv_int)
  show ?thesis
    using assms by (simp add: fix_unknown_dimension_def Let_def a m d del: of_nat_mult of_nat_numeral)
qed

lemma fix_unknown_dimension_bins:
  assumes "bc < 0"
  shows "fix_unknown_dimension [int n0, bc, 2] s =
     (if n0 = 0 \<or> s mod (n0 * 2) \<noteq> 0 then Inl ValueError else Inr [n0, s div (n0 * 2), 2])"
proof -
  have a: "int n0 * 2 = int (n0 * 2)"
    by simp
  have m: "int s mod int (n0 * 2) = int (s mod (n0 * 2))"
    by (simp only: zmod_int)
  have d: "int s div int (n0 * 2) = int (s div (n0 * 2))"
    by (simp only: zdiv_int)
  show ?thesis
    using assms by (simp add: fix_unknown_dimension_def Let_def a m d del: of_nat_mult of_nat_numeral)
qed

lemma fix_unknown_dimension_both:
  "fc < 0 \<Longrightarrow> bc < 0 \<Longrightarrow> fix_unknown_dimension [fc, bc, 2] s = Inl ValueError"
  by (simp add: fix_unknown_dimension_def Let_def)

lemma fix_unknown_dimension_shape:
  assumes "fix_unknown_dimension [fc, bc, 2] s = Inr ds"
  shows "\<exists>n0 n1. ds = [n0, n1, 2] \<and> s = n0 * n1 * 2 \<and> (0 \<le> fc \<longrightarrow> n0 = nat fc) \<and> (0 \<le> bc \<longrightarrow> n1 = nat bc)"
proof -
  consider (a) "0 \<le> fc" "0 \<le> bc" | (b) "fc < 0" "0 \<le> bc" | (c) "0 \<le> fc" "bc < 0" | (d) "fc < 0" "bc < 0"
    by linarith
  then show ?thesis
  proof cases
    case a
    then obtain n0 n1 where e: "fc = int n0" "bc = int n1"
      by (metis nat_0_le)
    with assms show ?thesis
      by (auto simp add: fix_unknown_dimension_exact split: if_splits)
  next
    case b
    then obtain n1 where e: "bc = int n1"
      by (metis nat_0_le)
    with assms b show ?thesis
      by (auto simp add: fix_unknown_dimension_frames split: if_splits)
  next
    case c
    then obtain n0 where e: "fc = int n0"
      by (metis nat_0_le)
    with assms c show ?thesis
      by (auto simp add: fix_unknown_dimension_bins split: if_splits)
  next
    case d
    with assms show ?thesis
      by (simp add: fix_unknown_dimension_both)
  qed
qed

lemma pair_value:
  "c_add (c_of_f32 (Fin x)) (c_mul imag_unit (c_of_f32 (Fin y))) = C64 (Fin x) (Fin y)"
  by (simp add: c_add_def c_mul_def c_of_f32_def imag_unit_def f_add_def f_sub_def f_mul_def
      f_neg_def signed_zero_def)

lemma decode_shape:
  assumes "decode buffer fc bc = Inr out"
  shows "\<exists>n0 n1. length buffer = n0 * n1 * 2 \<and> (0 \<le> fc \<longrightarrow> n0 = nat fc) \<and> (0 \<le> bc \<longrightarrow> n1 = nat bc) \<and>
     out = map (\<lambda>i. map (\<lambda>j.
            c_add (c_of_f32 (buffer ! ((i * n1 + j) * 2)))
                  (c_mul imag_unit (c_of_f32 (buffer ! ((i * n1 + j) * 2 + 1)))))
            [0..<n1]) [0..<n0]"
proof (cases "fix_unknown_dimension [fc, bc, 2] (length buffer)")
  case (Inl e)
  then show ?thesis
    using assms decode_of_error by fastforce
next
  case (Inr ds)
  from fix_unknown_dimension_shape [OF Inr] obtain n0 n1 where
    d: "ds = [n0, n1, 2]" "length buffer = n0 * n1 * 2"
       "0 \<le> fc \<longrightarrow> n0 = nat fc" "0 \<le> bc \<longrightarrow> n1 = nat bc"
    by blast
  from Inr d(1) have "fix_unknown_dimension [fc, bc, 2] (length buffer) = Inr [n0, n1, 2]"
    by simp
  from decode_of_dims [OF this] assms d show ?thesis
    by auto
qed

lemma index_in_range:
  fixes f b n0 n1 :: nat
  assumes "f < n0" "b < n1"
  shows "2 * (f * n1 + b) + 1 < n0 * n1 * 2"
proof -
  have "f * n1 + b < f * n1 + n1"
    using assms by simp
  also have "\<dots> = Suc f * n1"
    by simp
  also have "\<dots> \<le> n0 * n1"
    using assms by (intro mult_le_mono1) simp
  finally show ?thesis
    by simp
qed

section \<open>The layout of the decoded matrix\<close>

text \<open>
  Claim C1. For at least one frame and one bin and a buffer of exactly
  \<open>frame_count * bin_count * 2\<close> values, \<open>decode\<close> returns a matrix with
  \<open>frame_count\<close> rows of \<open>bin_count\<close> elements, and the element at \<open>(f, b)\<close> is
  \<open>buffer[idx] + 1j * buffer[idx + 1]\<close> for \<open>idx = 2 * (f * bin_count + b)\<close>, both
  indices lying inside the buffer: frames outermost, then bins, then the pair, the real
  part first. Where the two buffer values are finite and not negative zero, that sum is
  the complex number with exactly these two parts.
\<close>

theorem decode_row_major:
  assumes "1 \<le> frame_count" and "1 \<le> bin_count"
    and "int (length buffer) = frame_count * bin_count * 2"
  shows "\<exists>out. decode buffer frame_count bin_count = Inr out \<and>
     length out = nat frame_count \<and>
     (\<forall>f < nat frame_count. length (out ! f) = nat bin_count \<and>
        (\<forall>b < nat bin_count.
           2 * (f * nat bin_count + b) + 1 < length buffer \<and>
           out ! f ! b =
             c_add (c_of_f32 (buffer ! (2 * (f * nat bin_count + b))))
                   (c_mul imag_unit (c_of_f32 (buffer ! (2 * (f * nat bin_count + b) + 1)))) \<and>
           (\<forall>x y. buffer ! (2 * (f * nat bin_count + b)) = Fin x \<and>
                  buffer ! (2 * (f * nat bin_count + b) + 1) = Fin y \<longrightarrow>
                  out ! f ! b = C64 (Fin x) (Fin y))))"
proof -
  define n0 n1 where "n0 = nat frame_count" and "n1 = nat bin_count"
  have fc: "frame_count = int n0" and bc: "bin_count = int n1"
    using assms by (simp_all add: n0_def n1_def)
  have len: "length buffer = n0 * n1 * 2"
  proof -
    have "int (length buffer) = int (n0 * n1 * 2)"
      using assms(3) by (simp add: fc bc)
    then show ?thesis
      by (simp only: of_nat_eq_iff)
  qed
  let ?out = "map (\<lambda>i. map (\<lambda>j.
            c_add (c_of_f32 (buffer ! ((i * n1 + j) * 2)))
                  (c_mul imag_unit (c_of_f32 (buffer ! ((i * n1 + j) * 2 + 1)))))
            [0..<n1]) [0..<n0]"
  have dec: "decode buffer frame_count bin_count = Inr ?out"
    by (simp add: fc bc decode_exact len)
  have "2 * (f * n1 + b) + 1 < length buffer" if "f < n0" "b < n1" for f b
    using index_in_range [OF that] by (simp add: len)
  moreover have "?out ! f ! b =
      c_add (c_of_f32 (buffer ! (2 * (f * n1 + b))))
            (c_mul imag_unit (c_of_f32 (buffer ! (2 * (f * n1 + b) + 1))))"
    if "f < n0" "b < n1" for f b
    using that by (simp add: mult.commute)
  moreover have "length (?out ! f) = n1" if "f < n0" for f
    using that by simp
  ultimately show ?thesis
    unfolding n0_def [symmetric] n1_def [symmetric]
    by (intro exI [of _ ?out] conjI dec allI impI) (simp_all add: pair_value)
qed

theorem decode_row_major_witness:
  "(1::int) \<le> 1 \<and> int (length [Fin 1, Fin 0]) = 1 * 1 * 2 \<and>
   (\<exists>out. decode [Fin 1, Fin 0] 1 1 = Inr out \<and> length out = 1 \<and> length (out ! 0) = 1 \<and>
      out ! 0 ! 0 = C64 (Fin 1) (Fin 0))"
proof -
  have h: "(1::int) \<le> 1" "int (length [Fin 1, Fin 0]) = 1 * 1 * 2"
    by simp_all
  from decode_row_major [OF h(1) h(1) h(2)] obtain out where
    o: "decode [Fin 1, Fin 0] 1 1 = Inr out" "length out = nat 1"
       "\<forall>f < nat 1. length (out ! f) = nat 1 \<and>
        (\<forall>b < nat 1.
           2 * (f * nat 1 + b) + 1 < length [Fin 1, Fin 0] \<and>
           out ! f ! b =
             c_add (c_of_f32 ([Fin 1, Fin 0] ! (2 * (f * nat 1 + b))))
                   (c_mul imag_unit (c_of_f32 ([Fin 1, Fin 0] ! (2 * (f * nat 1 + b) + 1)))) \<and>
           (\<forall>x y. [Fin 1, Fin 0] ! (2 * (f * nat 1 + b)) = Fin x \<and>
                  [Fin 1, Fin 0] ! (2 * (f * nat 1 + b) + 1) = Fin y \<longrightarrow>
                  out ! f ! b = C64 (Fin x) (Fin y)))"
    by blast
  from o(3) have "length (out ! 0) = 1" "out ! 0 ! 0 = C64 (Fin 1) (Fin 0)"
    by (simp_all add: pair_value)
  with o(1,2) h show ?thesis
    by simp
qed

section \<open>Buffers of the wrong length\<close>

text \<open>
  Claim C2. For at least one frame and one bin, a buffer whose length is not
  \<open>frame_count * bin_count * 2\<close> is refused with the shape error (NumPy's
  \<^verbatim>\<open>ValueError\<close>): no matrix is returned, so nothing is truncated or padded.
\<close>

theorem decode_shape_mismatch:
  assumes "1 \<le> frame_count" and "1 \<le> bin_count"
    and "int (length buffer) \<noteq> frame_count * bin_count * 2"
  shows "decode buffer frame_count bin_count = Inl ValueError"
proof -
  define n0 n1 where "n0 = nat frame_count" and "n1 = nat bin_count"
  have fc: "frame_count = int n0" and bc: "bin_count = int n1"
    using assms by (simp_all add: n0_def n1_def)
  have "int (length buffer) \<noteq> int (n0 * n1 * 2)"
    using assms(3) by (simp add: fc bc)
  then have "length buffer \<noteq> n0 * n1 * 2"
    by (simp only: of_nat_eq_iff) simp
  then show ?thesis
    by (simp add: fc bc decode_exact)
qed

theorem decode_shape_mismatch_witness:
  "(1::int) \<le> 1 \<and> int (length [Fin 1, Fin 0, Fin 3]) \<noteq> 1 * 1 * 2 \<and>
   decode [Fin 1, Fin 0, Fin 3] 1 1 = Inl ValueError"
proof -
  have h: "(1::int) \<le> 1" "int (length [Fin 1, Fin 0, Fin 3]) \<noteq> 1 * 1 * 2"
    by simp_all
  from decode_shape_mismatch [OF h(1) h(1) h(2)] h show ?thesis
    by simp
qed

lemma decode_rows:
  assumes "decode buffer fc bc = Inr out"
  shows "\<exists>n0 n1. length buffer = n0 * n1 * 2 \<and> length out = n0 \<and> (\<forall>row \<in> set out. length row = n1) \<and>
           (0 \<le> fc \<longrightarrow> n0 = nat fc) \<and> (0 \<le> bc \<longrightarrow> n1 = nat bc)"
proof -
  from decode_shape [OF assms] obtain n0 n1 where
    d: "length buffer = n0 * n1 * 2" "0 \<le> fc \<longrightarrow> n0 = nat fc" "0 \<le> bc \<longrightarrow> n1 = nat bc"
     "out = map (\<lambda>i. map (\<lambda>j.
            c_add (c_of_f32 (buffer ! ((i * n1 + j) * 2)))
                  (c_mul imag_unit (c_of_f32 (buffer ! ((i * n1 + j) * 2 + 1)))))
            [0..<n1]) [0..<n0]"
    by blast
  from d(4) have "length out = n0" "\<forall>row \<in> set out. length row = n1"
    by auto
  with d(1,2,3) show ?thesis
    by blast
qed

section \<open>Properties of rounding\<close>

lemma pow2_powr: "pow2 k = 2 powr (real_of_int k)"
  by (simp add: pow2_def powr_int)

lemma pow2_pos: "0 < pow2 k"
  by (simp add: pow2_powr)

lemma pow2_mono: "j \<le> k \<Longrightarrow> pow2 j \<le> pow2 k"
  by (simp add: pow2_powr)


lemma pow2_0: "pow2 0 = 1"
  by (simp add: pow2_def)




lemma round_half_even_lower: "r - 1 / 2 \<le> of_int (round_half_even r)"
  unfolding round_half_even_def by (auto simp add: not_less) linarith+

lemma round_half_even_of_int: "round_half_even (of_int n) = n"
  by (simp add: round_half_even_def)

lemma round_half_even_nonneg: "0 \<le> r \<Longrightarrow> 0 \<le> round_half_even r"
  unfolding round_half_even_def by (auto simp add: not_less) 



lemma exponent_ofI:
  assumes "emin f \<le> k" and "k \<le> emax f" and "x < pow2 (k + 1)"
    and "k = emin f \<or> pow2 k \<le> x"
  shows "exponent_of f x = Some k"
proof -
  let ?i = "nat (k - emin f)"
  have len: "?i < length [emin f..emax f]"
    using assms(1,2) by simp
  have nth: "[emin f..emax f] ! ?i = k"
    using assms(1,2) by (simp add: nth_upto)
  have "\<not> x < pow2 ([emin f..emax f] ! j + 1)" if "j < ?i" for j
  proof -
    have j: "[emin f..emax f] ! j = emin f + int j"
      using that assms(1,2) by (simp add: nth_upto)
    from that have "k \<noteq> emin f"
      by simp
    with assms(4) have "pow2 k \<le> x"
      by simp
    moreover have "pow2 (emin f + int j + 1) \<le> pow2 k"
      using that by (intro pow2_mono) simp
    ultimately show ?thesis
      by (simp add: j)
  qed
  with len nth assms(3) show ?thesis
    unfolding exponent_of_def find_Some_iff by (intro exI [of _ ?i]) simp
qed

lemma exponent_of_None:
  assumes "pow2 (emax f + 1) \<le> x"
  shows "exponent_of f x = None"
proof -
  have "\<not> x < pow2 (k + 1)" if "k \<in> set [emin f..emax f]" for k
  proof -
    from that have "pow2 (k + 1) \<le> pow2 (emax f + 1)"
      by (intro pow2_mono) simp
    with assms show ?thesis
      by simp
  qed
  then show ?thesis
    unfolding exponent_of_def find_None_iff by blast
qed


lemma fl_round_None:
  "x \<noteq> 0 \<Longrightarrow> exponent_of f \<bar>x\<bar> = None \<Longrightarrow> fl_round f s x = signed_inf (x < 0)"
  by (simp add: fl_round_def)

lemma fl_round_Some:
  assumes "x \<noteq> 0" and "exponent_of f \<bar>x\<bar> = Some e"
    and "round_half_even (\<bar>x\<bar> / pow2 (e - int (prec f) + 1)) = n"
  shows "fl_round f s x =
     (if n = 0 then signed_zero (x < 0)
      else if pow2 (emax f + 1) \<le> of_int n * pow2 (e - int (prec f) + 1)
        then signed_inf (x < 0)
      else Fin ((if x < 0 then - 1 else 1) * (of_int n * pow2 (e - int (prec f) + 1))))"
  using assms by (simp only: fl_round_def Let_def option.case if_False)

lemma fl_round_exact:
  assumes "0 < x" and "emin f \<le> e" and "e \<le> emax f" and "x < pow2 (e + 1)"
    and "e = emin f \<or> pow2 e \<le> x"
    and "x = of_int n * pow2 (e - int (prec f) + 1)"
  shows "fl_round f s x = Fin x" and "fl_round f s (- x) = Fin (- x)"
proof -
  let ?q = "pow2 (e - int (prec f) + 1)"
  have ex: "exponent_of f x = Some e"
    using assms(2-5) by (rule exponent_ofI)
  have q: "0 < ?q"
    by (rule pow2_pos)
  have "x / ?q = of_int n"
    using q by (simp add: assms(6))
  then have r: "round_half_even (x / ?q) = n"
    by (simp only: round_half_even_of_int)
  have nq: "of_int n * ?q = x"
    by (simp only: assms(6))
  have n0: "n \<noteq> 0"
    using assms(1) nq by auto
  have "pow2 (e + 1) \<le> pow2 (emax f + 1)"
    using assms(3) by (intro pow2_mono) simp
  with assms(4) have no: "\<not> pow2 (emax f + 1) \<le> x"
    by simp
  have a: "\<bar>x\<bar> = x" "x \<noteq> 0" "\<not> x < 0"
    using assms(1) by simp_all
  have "exponent_of f \<bar>x\<bar> = Some e" "round_half_even (\<bar>x\<bar> / ?q) = n"
    using ex r by (simp_all only: a)
  from fl_round_Some [OF a(2) this] show "fl_round f s x = Fin x"
    using n0 no a(3) by (simp only: nq if_False) simp
  have b: "\<bar>- x\<bar> = x" "- x \<noteq> 0" "- x < 0"
    using assms(1) by simp_all
  have "exponent_of f \<bar>- x\<bar> = Some e" "round_half_even (\<bar>- x\<bar> / ?q) = n"
    using ex r by (simp_all only: b)
  from fl_round_Some [OF b(2) this] show "fl_round f s (- x) = Fin (- x)"
    using n0 no b(3) by (simp only: nq if_False if_True) simp
qed

lemma fl_round_nonneg:
  assumes "0 \<le> x"
  shows "fl_round f False x = PInf \<or>
     (\<exists>v. fl_round f False x = Fin v \<and> 0 \<le> v \<and> v < pow2 (emax f + 1))"
proof (cases "x = 0")
  case True
  then show ?thesis
    by (simp add: fl_round_def signed_zero_def pow2_pos)
next
  case False
  with assms have pos: "0 < x" "\<bar>x\<bar> = x" "\<not> x < 0"
    by simp_all
  show ?thesis
  proof (cases "exponent_of f x")
    case None
    then have "exponent_of f \<bar>x\<bar> = None"
      by (simp only: pos)
    from fl_round_None [OF False this] pos(3) show ?thesis
      by (simp add: signed_inf_def)
  next
    case (Some e)
    let ?q = "pow2 (e - int (prec f) + 1)"
    let ?n = "round_half_even (\<bar>x\<bar> / ?q)"
    have q: "0 < ?q"
      by (rule pow2_pos)
    have "0 \<le> \<bar>x\<bar> / ?q"
      using q by simp
    then have "0 \<le> ?n"
      by (rule round_half_even_nonneg)
    then have nn: "0 \<le> of_int ?n * ?q"
      using q by simp
    have "exponent_of f \<bar>x\<bar> = Some e"
      using Some by (simp only: pos)
    from fl_round_Some [OF False this refl, of s] have
      "fl_round f False x =
        (if ?n = 0 then signed_zero (x < 0)
         else if pow2 (emax f + 1) \<le> of_int ?n * ?q then signed_inf (x < 0)
         else Fin ((if x < 0 then - 1 else 1) * (of_int ?n * ?q)))"
      using fl_round_Some [OF False \<open>exponent_of f \<bar>x\<bar> = Some e\<close> refl] by simp
    with pos(3) nn show ?thesis
      by (auto simp add: signed_zero_def signed_inf_def pow2_pos not_le)
  qed
qed



section \<open>Some rounded values\<close>

text \<open>
  The values the script's constants and the examples below round to. The product
  \<open>0.7 * 10.0\<close> of Python floats is a tie between two floats and rounds to \<open>7.0\<close>;
  the product \<open>2.0 ** 1023 * 2.0\<close> overflows.
\<close>

lemma fl_round_8000: "fl_round binary64 s 8000 = Fin 8000"
  by (rule fl_round_exact(1) [where e = 12 and n = 8796093022208000])
     (simp_all add: binary64_def pow2_def)

lemma signal_len_default: "signal_len default_params = Inr 8000"
  by (simp add: signal_len_def default_params_def fl_mul_def fl_round_8000 py_int_def)

lemma fl_round_8000_75: "fl_round binary64 s (32003 / 4) = Fin (32003 / 4)"
  by (rule fl_round_exact(1) [where e = 12 and n = 8796917655928832])
     (simp_all add: binary64_def pow2_def)

lemma fl_round_tie: "fl_round binary64 s (6305039478318694 / 2 ^ 53 * 10) = Fin 7"
proof -
  let ?x = "6305039478318694 / 2 ^ 53 * 10 :: real"
  have x: "?x \<noteq> 0" "\<not> ?x < 0" "\<bar>?x\<bar> = ?x"
    by simp_all
  have e: "exponent_of binary64 \<bar>?x\<bar> = Some 2"
    unfolding x(3) by (rule exponent_ofI) (simp_all add: binary64_def pow2_def)
  have r: "round_half_even (\<bar>?x\<bar> / pow2 (2 - int (prec binary64) + 1)) = 7881299347898368"
    by (simp add: binary64_def pow2_def round_half_even_def)
  from fl_round_Some [OF x(1) e r, of s] show ?thesis
    by (simp add: binary64_def pow2_def)
qed


lemma fl_round_overflow: "fl_round binary64 s (2 ^ 1023 * 2) = PInf"
proof -
  have "pow2 (emax binary64 + 1) \<le> \<bar>2 ^ 1023 * 2 :: real\<bar>"
    by (simp add: binary64_def pow2_def)
  then have "exponent_of binary64 \<bar>2 ^ 1023 * 2 :: real\<bar> = None"
    by (rule exponent_of_None)
  from fl_round_None [OF _ this, of s] show ?thesis
    by (simp add: signed_inf_def)
qed

lemma fl_mul_Fin: "fl_mul f (Fin a) (Fin b) = fl_round f ((a < 0) \<noteq> (b < 0)) (a * b)"
  by (simp add: fl_mul_def)

lemma signal_len_rounds_the_product:
  "signal_len \<lparr>sample_rate = Fin (6305039478318694 / 2 ^ 53), duration = Fin 10,
      hop = 128, win = 256, fftsize = 256\<rparr> = Inr 7"
  by (simp only: signal_len_def params.select_convs fl_mul_Fin fl_round_tie)
     (simp add: py_int_def)

lemma signal_len_overflows:
  "signal_len \<lparr>sample_rate = Fin (2 ^ 1023), duration = Fin 2,
      hop = 128, win = 256, fftsize = 256\<rparr> = Inl OverflowError"
  by (simp only: signal_len_def params.select_convs fl_mul_Fin fl_round_overflow)
     (simp add: py_int_def)



lemma fl_round_5: "fl_round binary32 s 5 = Fin 5"
  by (rule fl_round_exact(1) [where e = 2 and n = 10485760])
     (simp_all add: binary32_def pow2_def)

lemma hypot_3_4: "fl_hypot binary32 (Fin 3) (Fin 4) = Fin 5"
proof -
  have "sqrt ((3::real)\<^sup>2 + 4\<^sup>2) = sqrt (5\<^sup>2)"
    by simp
  then have "sqrt ((3::real)\<^sup>2 + 4\<^sup>2) = 5"
    by (simp only: real_sqrt_abs)
  then show ?thesis
    by (simp add: fl_hypot_def fl_round_5)
qed

section \<open>The script's own configuration\<close>

lemma outsize_default: "outsize default_params = Inr 61"
  by (simp add: outsize_def signal_len_default py_floordiv_def) (simp add: default_params_def)

text \<open>
  Claim C3. With the constants of lines 5 to 11 (sample rate 8000, duration 1, hop 128,
  window 256, FFT size 256) the signal length is 8000, the frame count 61 and the bin
  count 128. Every buffer of exactly 15616 values is decoded, by the script's own lines
  and by \<open>decode\<close> with 61 frames and 128 bins alike, to a matrix of 61 rows of 128
  elements; every buffer of 15615 or of 15617 values is refused with the shape error.
\<close>

theorem default_configuration:
  "signal_len default_params = Inr 8000 \<and>
   outsize default_params = Inr 61 \<and>
   fftsize default_params div 2 = 128 \<and>
   (\<forall>buffer. length buffer = 15616 \<longrightarrow>
      (\<exists>out. load_stft default_params buffer = Inr out \<and> decode buffer 61 128 = Inr out \<and>
         length out = 61 \<and> (\<forall>row \<in> set out. length row = 128))) \<and>
   (\<forall>buffer. length buffer = 15615 \<or> length buffer = 15617 \<longrightarrow>
      load_stft default_params buffer = Inl ValueError \<and> decode buffer 61 128 = Inl ValueError)"
proof -
  have bins: "fftsize default_params div 2 = 128"
    by (simp add: default_params_def)
  have load: "load_stft default_params buffer = decode buffer 61 128" for buffer
    by (simp add: load_stft_def outsize_default bins)
  have dec: "decode buffer 61 128 =
      (if length buffer = 15616
       then Inr (map (\<lambda>i. map (\<lambda>j.
                  c_add (c_of_f32 (buffer ! ((i * 128 + j) * 2)))
                        (c_mul imag_unit (c_of_f32 (buffer ! ((i * 128 + j) * 2 + 1)))))
                  [0..<128]) [0..<61])
       else Inl ValueError)" for buffer
    using decode_exact [of buffer 61 128] by simp
  have ok: "\<exists>out. decode buffer 61 128 = Inr out \<and> length out = 61 \<and> (\<forall>row \<in> set out. length row = 128)"
    if "length buffer = 15616" for buffer
    using that by (simp only: dec if_True) simp
  have bad: "decode buffer 61 128 = Inl ValueError"
    if "length buffer = 15615 \<or> length buffer = 15617" for buffer
    using that by (auto simp only: dec split: if_splits)
  show ?thesis
    using signal_len_default outsize_default bins ok bad by (simp add: load)
qed

theorem default_configuration_witness:
  "length (replicate 15616 (Fin 0)) = 15616 \<and>
   (\<exists>out. load_stft default_params (replicate 15616 (Fin 0)) = Inr out \<and> length out = 61) \<and>
   length (replicate 15615 (Fin 0)) = 15615 \<and>
   load_stft default_params (replicate 15615 (Fin 0)) = Inl ValueError"
proof -
  have a: "length (replicate 15616 (Fin 0)) = 15616" and b: "length (replicate 15615 (Fin 0)) = 15615"
    by simp_all
  from default_configuration a have
    "\<exists>out. load_stft default_params (replicate 15616 (Fin 0)) = Inr out \<and> length out = 61"
    by blast
  moreover from default_configuration b have
    "load_stft default_params (replicate 15615 (Fin 0)) = Inl ValueError"
    by blast
  ultimately show ?thesis
    using a b by blast
qed

section \<open>The derived lengths\<close>

text \<open>
  Claim C5 says that the signal length is the product of sample rate and duration
  rounded to the nearest integer. Line 7 applies \<^verbatim>\<open>int\<close>, which drops the fractional
  part: for a sample rate of 8000.75 and a duration of 1, whose product is the float
  8000.75, the script derives 8000 where rounding gives 8001.
\<close>

theorem signal_len_round_counterexample:
  "fl_mul binary64 (Fin (32003 / 4)) (Fin 1) = Fin (32003 / 4) \<and>
   signal_len \<lparr>sample_rate = Fin (32003 / 4), duration = Fin 1, hop = 128, win = 256, fftsize = 256\<rparr>
     = Inr 8000 \<and>
   round (32003 / 4 * 1 :: real) = 8001"
  by (simp add: signal_len_def fl_mul_def fl_round_8000_75 py_int_def round_def)

text \<open>
  Claim C5, amended. For a sample rate and a duration whose product, the real product
  rounded to a Python float, is finite, the signal length is that float with the
  fractional part dropped (the floor of a float that is not negative, the ceiling of a
  negative one), and, for a hop other than zero, the frame count is the floor of
  (signal length - window) / hop, plus one.
\<close>

theorem signal_len_truncates:
  assumes "is_finite (fl_mul binary64 (sample_rate p) (duration p))" and "hop p \<noteq> 0"
  shows "\<exists>n. signal_len p = Inr n \<and>
     fl_mul binary64 (sample_rate p) (duration p) =
       fl_round binary64 (signbit (sample_rate p) \<noteq> signbit (duration p))
         (val (sample_rate p) * val (duration p)) \<and>
     n = (if 0 \<le> val (fl_mul binary64 (sample_rate p) (duration p))
          then \<lfloor>val (fl_mul binary64 (sample_rate p) (duration p))\<rfloor>
          else \<lceil>val (fl_mul binary64 (sample_rate p) (duration p))\<rceil>) \<and>
     outsize p = Inr (\<lfloor>real_of_int (n - win p) / real_of_int (hop p)\<rfloor> + 1)"
proof -
  let ?m = "fl_mul binary64 (sample_rate p) (duration p)"
  let ?n = "if 0 \<le> val ?m then \<lfloor>val ?m\<rfloor> else \<lceil>val ?m\<rceil>"
  have prod: "?m = fl_round binary64 (signbit (sample_rate p) \<noteq> signbit (duration p))
         (val (sample_rate p) * val (duration p))"
    using assms(1) by (auto simp add: fl_mul_def signed_inf_def split: if_splits)
  have s: "signal_len p = Inr ?n"
    using assms(1) by (cases ?m) (simp_all add: signal_len_def py_int_def)
  have "outsize p = Inr ((?n - win p) div hop p + 1)"
    using assms(2) by (simp add: outsize_def s py_floordiv_def)
  then have "outsize p = Inr (\<lfloor>real_of_int (?n - win p) / real_of_int (hop p)\<rfloor> + 1)"
    by (simp only: floor_divide_of_int_eq)
  with s prod show ?thesis
    by blast
qed

theorem signal_len_truncates_witness:
  "is_finite (fl_mul binary64 (sample_rate default_params) (duration default_params)) \<and>
   hop default_params \<noteq> 0 \<and>
   fl_mul binary64 (sample_rate default_params) (duration default_params) = Fin 8000 \<and>
   signal_len default_params = Inr 8000 \<and> outsize default_params = Inr 61"
proof -
  have m: "fl_mul binary64 (sample_rate default_params) (duration default_params) = Fin 8000"
    by (simp add: default_params_def fl_mul_def fl_round_8000)
  have h: "is_finite (fl_mul binary64 (sample_rate default_params) (duration default_params))"
    "hop default_params \<noteq> 0"
    by (simp_all add: m) (simp add: default_params_def)
  from signal_len_truncates [OF h] obtain n where
    n: "signal_len default_params = Inr n"
       "n = (if 0 \<le> val (fl_mul binary64 (sample_rate default_params) (duration default_params))
          then \<lfloor>val (fl_mul binary64 (sample_rate default_params) (duration default_params))\<rfloor>
          else \<lceil>val (fl_mul binary64 (sample_rate default_params) (duration default_params))\<rceil>)"
       "outsize default_params =
          Inr (\<lfloor>real_of_int (n - win default_params) / real_of_int (hop default_params)\<rfloor> + 1)"
    by blast
  from n(2) have n8: "n = 8000"
    by (simp add: m)
  have "\<lfloor>real_of_int (8000 - 256) / real_of_int 128\<rfloor> = (60::int)"
    by (simp add: floor_divide_of_int_eq del: of_int_diff)
  with n(3) have "outsize default_params = Inr 61"
    by (simp add: n8 default_params_def)
  with n(1) n8 h m show ?thesis
    by simp
qed

section \<open>Encoding and decoding\<close>

lemma length_concat_rows:
  "\<forall>xs \<in> set xss. length xs = n \<Longrightarrow> length (concat xss) = length xss * n"
  by (induction xss) simp_all

lemma nth_concat_rows:
  "\<forall>xs \<in> set xss. length xs = n \<Longrightarrow> i < length xss \<Longrightarrow> j < n \<Longrightarrow>
     concat xss ! (i * n + j) = xss ! i ! j"
proof (induction xss arbitrary: i)
  case Nil
  then show ?case by simp
next
  case (Cons xs xss)
  show ?case
  proof (cases i)
    case 0
    with Cons.prems show ?thesis
      by (simp add: nth_append)
  next
    case (Suc i')
    with Cons.prems have "concat xss ! (i' * n + j) = xss ! i' ! j"
      by (intro Cons.IH) simp_all
    with Suc Cons.prems show ?thesis
      by (simp add: nth_append)
  qed
qed


lemma length_flat_row:
  "length (concat (map (\<lambda>z. [re z, im z]) row)) = length row * 2"
  using length_concat_rows [of "map (\<lambda>z. [re z, im z]) row" 2] by simp

lemma nth_flat_row:
  assumes "j < length row" and "c < 2"
  shows "concat (map (\<lambda>z. [re z, im z]) row) ! (j * 2 + c) = [re (row ! j), im (row ! j)] ! c"
  using nth_concat_rows [of "map (\<lambda>z. [re z, im z]) row" 2 j c] assms by simp

lemma length_spec_encode:
  assumes "rectangular n0 n1 m"
  shows "length (spec_encode m) = n0 * n1 * 2"
proof -
  have "\<forall>xs \<in> set (map (\<lambda>row. concat (map (\<lambda>z. [re z, im z]) row)) m). length xs = n1 * 2"
    using assms by (auto simp add: rectangular_def list_all_iff length_flat_row)
  from length_concat_rows [OF this] assms show ?thesis
    by (simp add: spec_encode_def rectangular_def)
qed

lemma nth_spec_encode:
  assumes "rectangular n0 n1 m" and "i < n0" and "j < n1" and "c < 2"
  shows "spec_encode m ! ((i * n1 + j) * 2 + c) = [re (m ! i ! j), im (m ! i ! j)] ! c"
proof -
  let ?rows = "map (\<lambda>row. concat (map (\<lambda>z. [re z, im z]) row)) m"
  have len: "length m = n0" and row: "length (m ! i) = n1"
    using assms(1,2) by (simp_all add: rectangular_def list_all_length)
  have all: "\<forall>xs \<in> set ?rows. length xs = n1 * 2"
    using assms(1) by (auto simp add: rectangular_def list_all_iff length_flat_row)
  have "j * 2 + c < n1 * 2"
    using assms(3,4) by simp
  with nth_concat_rows [OF all, of i "j * 2 + c"] have
    "concat ?rows ! (i * (n1 * 2) + (j * 2 + c)) = ?rows ! i ! (j * 2 + c)"
    using assms(2) len by simp
  also have "\<dots> = concat (map (\<lambda>z. [re z, im z]) (m ! i)) ! (j * 2 + c)"
    using assms(2) len by simp
  also have "\<dots> = [re (m ! i ! j), im (m ! i ! j)] ! c"
    using nth_flat_row [of j "m ! i" c] assms(3,4) row by simp
  finally show ?thesis
    by (simp add: spec_encode_def algebra_simps)
qed

lemma pair_value_ordinary:
  assumes "is_finite x" "x \<noteq> NegZero" "is_finite y" "y \<noteq> NegZero"
  shows "c_add (c_of_f32 x) (c_mul imag_unit (c_of_f32 y)) = C64 x y"
  using assms by (cases x; cases y) (simp_all add: pair_value)

text \<open>
  Claim C4 says that decoding the encoded matrix gives the matrix back bit for bit
  whenever its components are finite. Negative zero is finite, and line 20 loses its
  sign: the imaginary part goes through \<open>0 * 0 + 1 * y\<close> and \<open>0 + y\<close>, and the sum of a
  positive and a negative zero is the positive zero. The one-element matrix \<open>1 - 0i\<close> is
  encoded as \<open>[1, -0]\<close> and decoded as \<open>1 + 0i\<close>.
\<close>

theorem roundtrip_negative_zero_counterexample:
  "rectangular 1 1 [[C64 (Fin 1) NegZero]] \<and>
   is_finite (Fin 1) \<and> is_finite NegZero \<and>
   spec_encode [[C64 (Fin 1) NegZero]] = [Fin 1, NegZero] \<and>
   decode (spec_encode [[C64 (Fin 1) NegZero]]) 1 1 = Inr [[C64 (Fin 1) (Fin 0)]] \<and>
   [[C64 (Fin 1) (Fin 0)]] \<noteq> [[C64 (Fin 1) NegZero]]"
proof -
  have e: "spec_encode [[C64 (Fin 1) NegZero]] = [Fin 1, NegZero]"
    by (simp add: spec_encode_def)
  have "decode [Fin 1, NegZero] (int 1) (int 1) = Inr [[C64 (Fin 1) (Fin 0)]]"
    by (simp only: decode_exact)
       (simp add: c_add_def c_mul_def c_of_f32_def imag_unit_def f_add_def f_sub_def f_mul_def
          f_neg_def signed_zero_def)
  then show ?thesis
    by (simp add: e rectangular_def)
qed

text \<open>
  Claim C4, amended. For every complex matrix with \<open>n0\<close> rows of \<open>n1\<close> elements whose
  components are finite and not negative zero, decoding its encoding with \<open>n0\<close> frames
  and \<open>n1\<close> bins returns exactly that matrix.
\<close>

theorem roundtrip:
  assumes "rectangular n0 n1 m"
    and "\<forall>row \<in> set m. \<forall>z \<in> set row.
           is_finite (re z) \<and> re z \<noteq> NegZero \<and> is_finite (im z) \<and> im z \<noteq> NegZero"
  shows "decode (spec_encode m) (int n0) (int n1) = Inr m"
proof -
  let ?b = "spec_encode m"
  let ?out = "map (\<lambda>i. map (\<lambda>j.
                  c_add (c_of_f32 (?b ! ((i * n1 + j) * 2)))
                        (c_mul imag_unit (c_of_f32 (?b ! ((i * n1 + j) * 2 + 1)))))
                  [0..<n1]) [0..<n0]"
  have len: "length m = n0" and rows: "\<And>i. i < n0 \<Longrightarrow> length (m ! i) = n1"
    using assms(1) by (simp_all add: rectangular_def list_all_length)
  have el: "?out ! i ! j = m ! i ! j" if "i < n0" "j < n1" for i j
  proof -
    let ?z = "m ! i ! j"
    have "m ! i \<in> set m" "?z \<in> set (m ! i)"
      using that len rows by simp_all
    with assms(2) have ord: "is_finite (re ?z)" "re ?z \<noteq> NegZero" "is_finite (im ?z)" "im ?z \<noteq> NegZero"
      by blast+
    have "?b ! ((i * n1 + j) * 2) = re ?z"
      using nth_spec_encode [OF assms(1) that, of 0] by simp
    moreover have "?b ! ((i * n1 + j) * 2 + 1) = im ?z"
      using nth_spec_encode [OF assms(1) that, of 1] by simp
    ultimately show ?thesis
      using that by (simp add: pair_value_ordinary [OF ord])
  qed
  have "?out = m"
  proof (rule nth_equalityI)
    show "length ?out = length m"
      by (simp add: len)
  next
    fix i assume "i < length ?out"
    then have i: "i < n0" by simp
    show "?out ! i = m ! i"
    proof (rule nth_equalityI)
      show "length (?out ! i) = length (m ! i)"
        using i by (simp add: rows)
    next
      fix j assume "j < length (?out ! i)"
      then have "j < n1" using i by simp
      from el [OF i this] show "?out ! i ! j = m ! i ! j" .
    qed
  qed
  then show ?thesis
    by (simp only: decode_exact length_spec_encode [OF assms(1)]) simp
qed

theorem roundtrip_witness:
  "rectangular 1 2 [[C64 (Fin 1) (Fin (- 2)), C64 (Fin 0) (Fin (1 / 2))]] \<and>
   spec_encode [[C64 (Fin 1) (Fin (- 2)), C64 (Fin 0) (Fin (1 / 2))]] = [Fin 1, Fin (- 2), Fin 0, Fin (1 / 2)] \<and>
   decode [Fin 1, Fin (- 2), Fin 0, Fin (1 / 2)] 1 2 = Inr [[C64 (Fin 1) (Fin (- 2)), C64 (Fin 0) (Fin (1 / 2))]]"
proof -
  let ?m = "[[C64 (Fin 1) (Fin (- 2)), C64 (Fin 0) (Fin (1 / 2))]]"
  have r: "rectangular 1 2 ?m"
    by (simp add: rectangular_def)
  have o: "\<forall>row \<in> set ?m. \<forall>z \<in> set row.
           is_finite (re z) \<and> re z \<noteq> NegZero \<and> is_finite (im z) \<and> im z \<noteq> NegZero"
    by simp
  have e: "spec_encode ?m = [Fin 1, Fin (- 2), Fin 0, Fin (1 / 2)]"
    by (simp add: spec_encode_def)
  from roundtrip [OF r o] r e show ?thesis
    by simp
qed

section \<open>A frame count of minus one\<close>

lemma floordiv_minus_two:
  fixes x h :: int
  assumes "0 < h" and "- 2 * h \<le> x" and "x \<le> - h - 1"
  shows "x div h = - 2"
proof -
  have "(x + 2 * h) div h = 0"
    using assms by (intro div_pos_pos_trivial) simp_all
  moreover have "(x + 2 * h) div h = x div h + 2"
    using assms(1) by simp
  ultimately show ?thesis
    by simp
qed

text \<open>
  Claim C8. When the hop is positive and signal length - window lies between \<open>-2 * hop\<close>
  and \<open>-hop - 1\<close>, the window exceeds the signal length and line 12 derives the frame
  count \<open>-1\<close>, because \<^verbatim>\<open>//\<close> rounds toward minus infinity. The reshape then infers
  the first dimension: for at least one bin, every buffer whose length is \<open>k\<close> times
  \<open>bin_count * 2\<close> is decoded without error to \<open>k\<close> frames, whatever \<open>k\<close> is.
\<close>

theorem negative_frame_count_is_inferred:
  assumes "signal_len p = Inr n" and "0 < hop p"
    and "- 2 * hop p \<le> n - win p" and "n - win p \<le> - hop p - 1"
    and "fftsize p div 2 = int bc" and "1 \<le> bc"
    and "length buffer = k * (bc * 2)"
  shows "n < win p \<and> outsize p = Inr (- 1) \<and>
     (\<exists>out. load_stft p buffer = Inr out \<and> decode buffer (- 1) (int bc) = Inr out \<and>
        length out = k \<and> (\<forall>row \<in> set out. length row = bc))"
proof -
  have q: "(n - win p) div hop p = - 2"
    using assms(2,3,4) by (rule floordiv_minus_two)
  have out: "outsize p = Inr (- 1)"
    using assms(1,2) by (simp add: outsize_def py_floordiv_def q)
  have "fix_unknown_dimension [- 1, int bc, 2] (length buffer) = Inr [k, bc, 2]"
    using assms(6,7) by (simp add: fix_unknown_dimension_frames)
  from decode_of_dims [OF this] obtain out where
    o: "decode buffer (- 1) (int bc) = Inr out" "length out = k" "\<forall>row \<in> set out. length row = bc"
    by auto
  have "load_stft p buffer = Inr out"
    by (simp add: load_stft_def out assms(5) o(1))
  moreover have "n < win p"
    using assms(2,4) by simp
  ultimately show ?thesis
    using out o by blast
qed

theorem negative_frame_count_is_inferred_witness:
  "signal_len (default_params\<lparr>win := 8200\<rparr>) = Inr 8000 \<and>
   0 < hop (default_params\<lparr>win := 8200\<rparr>) \<and>
   - 2 * hop (default_params\<lparr>win := 8200\<rparr>) \<le> 8000 - win (default_params\<lparr>win := 8200\<rparr>) \<and>
   8000 - win (default_params\<lparr>win := 8200\<rparr>) \<le> - hop (default_params\<lparr>win := 8200\<rparr>) - 1 \<and>
   fftsize (default_params\<lparr>win := 8200\<rparr>) div 2 = int 128 \<and>
   length (replicate 512 (Fin 0)) = 2 * (128 * 2) \<and>
   outsize (default_params\<lparr>win := 8200\<rparr>) = Inr (- 1) \<and>
   (\<exists>out. load_stft (default_params\<lparr>win := 8200\<rparr>) (replicate 512 (Fin 0)) = Inr out \<and>
      length out = 2)"
proof -
  let ?p = "default_params\<lparr>win := 8200\<rparr>"
  have h1: "signal_len ?p = Inr 8000"
    by (simp add: signal_len_def default_params_def fl_mul_def fl_round_8000 py_int_def)
  have h2: "0 < hop ?p" and h3: "- 2 * hop ?p \<le> 8000 - win ?p"
    and h4: "8000 - win ?p \<le> - hop ?p - 1" and h5: "fftsize ?p div 2 = int 128"
    by (simp_all add: default_params_def)
  have h6: "(1::nat) \<le> 128" and h7: "length (replicate 512 (Fin 0)) = 2 * (128 * 2)"
    by simp_all
  from negative_frame_count_is_inferred [OF h1 h2 h3 h4 h5 h6 h7]
  have "outsize ?p = Inr (- 1)"
    and "\<exists>out. load_stft ?p (replicate 512 (Fin 0)) = Inr out \<and> length out = 2"
    by blast+
  with h1 h2 h3 h4 h5 h7 show ?thesis
    by blast
qed

section \<open>Magnitude and decibel values\<close>





lemma magnitude_cases:
  "magnitude z = PInf \<or> magnitude z = NaN \<or> (\<exists>r. 0 \<le> r \<and> magnitude z = Fin r)"
proof -
  have "0 \<le> sqrt ((val (re z))\<^sup>2 + (val (im z))\<^sup>2)"
    by simp
  from fl_round_nonneg [OF this, of binary32] show ?thesis
    by (auto simp add: magnitude_def fl_hypot_def)
qed

lemma magnitude_finite_parts:
  "is_finite (re z) \<Longrightarrow> is_finite (im z) \<Longrightarrow>
     magnitude z = fl_round binary32 False (sqrt ((val (re z))\<^sup>2 + (val (im z))\<^sup>2))"
  by (cases "re z"; cases "im z") (simp_all add: magnitude_def fl_hypot_def)

lemma magnitude_infinite_part:
  "is_inf (re z) \<or> is_inf (im z) \<Longrightarrow> magnitude z = PInf"
  by (simp add: magnitude_def fl_hypot_def)









section \<open>What the heat map is given\<close>





section \<open>The sign of the magnitude\<close>

text \<open>
  Claim C10 says that every element of the magnitude of every decoded matrix is at
  least zero. The buffer is read from a file and may hold a NaN: the buffer
  \<open>[NaN, 0]\<close> is decoded, for one frame and one bin, to the element \<open>NaN + 0i\<close>, whose
  magnitude is a NaN, and no comparison with a NaN holds.
\<close>

theorem magnitude_nan_counterexample:
  "decode [NaN, Fin 0] 1 1 = Inr [[C64 NaN (Fin 0)]] \<and>
   np_abs [[C64 NaN (Fin 0)]] ! 0 ! 0 = NaN \<and>
   \<not> f_le (Fin 0) (np_abs [[C64 NaN (Fin 0)]] ! 0 ! 0)"
proof -
  have "decode [NaN, Fin 0] (int 1) (int 1) = Inr [[C64 NaN (Fin 0)]]"
    by (simp only: decode_exact)
       (simp add: c_add_def c_mul_def c_of_f32_def imag_unit_def f_add_def f_sub_def f_mul_def
          f_neg_def signed_zero_def)
  then show ?thesis
    by (simp add: np_abs_def magnitude_def fl_hypot_def f_le_def)
qed

text \<open>
  Claim C10, amended. Every element of a decoded matrix that has an infinite part, or
  whose two parts are not NaN, has a magnitude of at least zero: \<open>+\<infinity>\<close> when a part is
  infinite, and \<open>sqrt(real\<^sup>2 + imag\<^sup>2)\<close> rounded to \<^verbatim>\<open>float32\<close> (which is \<open>+\<infinity>\<close> beyond
  the range of the format) when both parts are finite.
\<close>

theorem magnitude_nonnegative:
  assumes "decode buffer fc bc = Inr complex_data"
    and "f < length complex_data" and "b < length (complex_data ! f)"
    and "is_inf (re (complex_data ! f ! b)) \<or> is_inf (im (complex_data ! f ! b)) \<or>
         re (complex_data ! f ! b) \<noteq> NaN \<and> im (complex_data ! f ! b) \<noteq> NaN"
  shows "f_le (Fin 0) (np_abs complex_data ! f ! b) \<and>
     (is_inf (re (complex_data ! f ! b)) \<or> is_inf (im (complex_data ! f ! b)) \<longrightarrow>
        np_abs complex_data ! f ! b = PInf) \<and>
     (is_finite (re (complex_data ! f ! b)) \<and> is_finite (im (complex_data ! f ! b)) \<longrightarrow>
        np_abs complex_data ! f ! b =
          fl_round binary32 False
            (sqrt ((val (re (complex_data ! f ! b)))\<^sup>2 + (val (im (complex_data ! f ! b)))\<^sup>2)))"
proof -
  let ?z = "complex_data ! f ! b"
  have m: "np_abs complex_data ! f ! b = magnitude ?z"
    using assms(2,3) by (simp add: np_abs_def)
  have "magnitude ?z \<noteq> NaN"
  proof (cases "is_inf (re ?z) \<or> is_inf (im ?z)")
    case True
    then show ?thesis
      by (simp add: magnitude_infinite_part)
  next
    case False
    with assms(4) have "magnitude ?z =
        fl_round binary32 False (sqrt ((val (re ?z))\<^sup>2 + (val (im ?z))\<^sup>2))"
      by (simp add: magnitude_def fl_hypot_def)
    moreover have "0 \<le> sqrt ((val (re ?z))\<^sup>2 + (val (im ?z))\<^sup>2)"
      by simp
    from fl_round_nonneg [OF this, of binary32] have
      "fl_round binary32 False (sqrt ((val (re ?z))\<^sup>2 + (val (im ?z))\<^sup>2)) \<noteq> NaN"
      by auto
    ultimately show ?thesis
      by simp
  qed
  with magnitude_cases [of ?z] have "f_le (Fin 0) (magnitude ?z)"
    by (auto simp add: f_le_def)
  moreover have "magnitude ?z = PInf" if "is_inf (re ?z) \<or> is_inf (im ?z)"
    using that by (rule magnitude_infinite_part)
  moreover have "magnitude ?z = fl_round binary32 False (sqrt ((val (re ?z))\<^sup>2 + (val (im ?z))\<^sup>2))"
    if "is_finite (re ?z) \<and> is_finite (im ?z)"
    using that by (simp add: magnitude_finite_parts)
  ultimately show ?thesis
    by (simp only: m) blast
qed

theorem magnitude_nonnegative_witness:
  "decode [Fin 3, Fin 4] 1 1 = Inr [[C64 (Fin 3) (Fin 4)]] \<and>
   (0::nat) < length [[C64 (Fin 3) (Fin 4)]] \<and> (0::nat) < length ([[C64 (Fin 3) (Fin 4)]] ! 0) \<and>
   re ([[C64 (Fin 3) (Fin 4)]] ! 0 ! 0) \<noteq> NaN \<and> im ([[C64 (Fin 3) (Fin 4)]] ! 0 ! 0) \<noteq> NaN \<and>
   f_le (Fin 0) (np_abs [[C64 (Fin 3) (Fin 4)]] ! 0 ! 0) \<and>
   np_abs [[C64 (Fin 3) (Fin 4)]] ! 0 ! 0 = Fin 5 \<and>
   decode [Fin 1, PInf] 1 1 = Inr [[C64 NaN PInf]] \<and>
   is_inf (im ([[C64 NaN PInf]] ! 0 ! 0)) \<and>
   f_le (Fin 0) (np_abs [[C64 NaN PInf]] ! 0 ! 0) \<and>
   np_abs [[C64 NaN PInf]] ! 0 ! 0 = PInf"
proof -
  let ?cd = "[[C64 (Fin 3) (Fin 4)]]"
  let ?ci = "[[C64 NaN PInf]]"
  have "decode [Fin 3, Fin 4] (int 1) (int 1) = Inr ?cd"
    by (simp only: decode_exact) (simp add: pair_value)
  then have h1: "decode [Fin 3, Fin 4] 1 1 = Inr ?cd"
    by simp
  have h2: "(0::nat) < length ?cd" and h3: "(0::nat) < length (?cd ! 0)"
    and nn: "re (?cd ! 0 ! 0) \<noteq> NaN" "im (?cd ! 0 ! 0) \<noteq> NaN"
    and fin: "is_finite (re (?cd ! 0 ! 0)) \<and> is_finite (im (?cd ! 0 ! 0))"
    by simp_all
  from nn have h4: "is_inf (re (?cd ! 0 ! 0)) \<or> is_inf (im (?cd ! 0 ! 0)) \<or>
      re (?cd ! 0 ! 0) \<noteq> NaN \<and> im (?cd ! 0 ! 0) \<noteq> NaN"
    by blast
  from magnitude_nonnegative [OF h1 h2 h3 h4] fin have
    le: "f_le (Fin 0) (np_abs ?cd ! 0 ! 0)"
    and eq: "np_abs ?cd ! 0 ! 0 =
      fl_round binary32 False (sqrt ((val (re (?cd ! 0 ! 0)))\<^sup>2 + (val (im (?cd ! 0 ! 0)))\<^sup>2))"
    by blast+
  have five: "np_abs ?cd ! 0 ! 0 = Fin 5"
    using hypot_3_4 by (simp add: np_abs_def magnitude_def)
  have "decode [Fin 1, PInf] (int 1) (int 1) = Inr ?ci"
    by (simp only: decode_exact)
       (simp add: c_add_def c_mul_def c_of_f32_def imag_unit_def f_add_def f_sub_def f_mul_def
          f_neg_def signed_zero_def signed_inf_def)
  then have i1: "decode [Fin 1, PInf] 1 1 = Inr ?ci"
    by simp
  have i2: "(0::nat) < length ?ci" and i3: "(0::nat) < length (?ci ! 0)"
    and inf: "is_inf (im (?ci ! 0 ! 0))"
    by simp_all
  from inf have i4: "is_inf (re (?ci ! 0 ! 0)) \<or> is_inf (im (?ci ! 0 ! 0)) \<or>
      re (?ci ! 0 ! 0) \<noteq> NaN \<and> im (?ci ! 0 ! 0) \<noteq> NaN"
    by blast
  from magnitude_nonnegative [OF i1 i2 i3 i4] inf have
    "f_le (Fin 0) (np_abs ?ci ! 0 ! 0)" "np_abs ?ci ! 0 ! 0 = PInf"
    by blast+
  with le five h1 h2 h3 nn i1 inf show ?thesis
    by blast
qed

section \<open>Runs of the decoder on a store\<close>

lemma st_decode_of_dims:
  assumes "fix_unknown_dimension [fc, bc, 2] (length (f32_mem s a)) = Inr [n0, n1, 2]"
  shows "\<exists>r s'. st_decode s a fc bc = Inr (r, s') \<and> f32_mem s' = f32_mem s \<and>
     c64_mem s' r =
       map (\<lambda>i. map (\<lambda>j.
            c_add (c_of_f32 (f32_mem s a ! ((i * n1 + j) * 2)))
                  (c_mul imag_unit (c_of_f32 (f32_mem s a ! ((i * n1 + j) * 2 + 1)))))
            [0..<n1]) [0..<n0]"
proof -
  have m2: "map2 f (map g xs) (map h xs) = map (\<lambda>x. f (g x) (h x)) xs" for f g h and xs :: "nat list"
    by (induction xs) simp_all
  show ?thesis
    using assms
    by (simp add: st_decode_def st_alloc_c64_def st_last_axis_def scalar_mul_def add_arrays_def
        m2 comp_def)
qed

lemma st_decode_cases:
  "(\<exists>e. st_decode s a fc bc = Inl e \<and> decode (f32_mem s a) fc bc = Inl e) \<or>
   (\<exists>r s'. st_decode s a fc bc = Inr (r, s') \<and> f32_mem s' = f32_mem s \<and>
      decode (f32_mem s a) fc bc = Inr (c64_mem s' r))"
proof (cases "fix_unknown_dimension [fc, bc, 2] (length (f32_mem s a))")
  case (Inl e)
  then have "st_decode s a fc bc = Inl e"
    by (simp add: st_decode_def)
  with decode_of_error [OF Inl] show ?thesis
    by blast
next
  case (Inr ds)
  from fix_unknown_dimension_shape [OF Inr] obtain n0 n1 where "ds = [n0, n1, 2]"
    by blast
  with Inr have d: "fix_unknown_dimension [fc, bc, 2] (length (f32_mem s a)) = Inr [n0, n1, 2]"
    by simp
  from st_decode_of_dims [OF d] obtain r s' where
    r: "st_decode s a fc bc = Inr (r, s')" "f32_mem s' = f32_mem s"
       "c64_mem s' r =
         map (\<lambda>i. map (\<lambda>j.
            c_add (c_of_f32 (f32_mem s a ! ((i * n1 + j) * 2)))
                  (c_mul imag_unit (c_of_f32 (f32_mem s a ! ((i * n1 + j) * 2 + 1)))))
            [0..<n1]) [0..<n0]"
    by blast
  from decode_of_dims [OF d] r(3) have "decode (f32_mem s a) fc bc = Inr (c64_mem s' r)"
    by simp
  with r(1,2) show ?thesis
    by blast
qed

lemma st_decode_refines:
  "outcome (st_decode s a fc bc) = decode (f32_mem s a) fc bc"
  using st_decode_cases [of s a fc bc] by (elim disjE exE conjE) (simp_all add: outcome_def)

lemma st_decode_frame:
  assumes "st_decode s a fc bc = Inr (r, s')"
  shows "f32_mem s' = f32_mem s"
  using st_decode_cases [of s a fc bc] assms by (elim disjE exE conjE) simp_all

text \<open>
  Claim C9. Two runs of lines 19 and 20 on stores whose input buffers hold the same
  values, with the same frame and bin counts, end alike: both raise the same error or
  both return the same complex matrix, the one the function \<open>decode\<close> gives for that
  buffer, and hence the same magnitudes. A run leaves every \<^verbatim>\<open>float32\<close> buffer of the
  store, the input buffer among them, as it was.
\<close>

theorem decode_deterministic_and_pure:
  assumes "f32_mem s1 a1 = f32_mem s2 a2"
  shows "outcome (st_decode s1 a1 fc bc) = outcome (st_decode s2 a2 fc bc) \<and>
     outcome (st_decode s1 a1 fc bc) = decode (f32_mem s1 a1) fc bc \<and>
     (\<forall>r1 t1 r2 t2.
        st_decode s1 a1 fc bc = Inr (r1, t1) \<and> st_decode s2 a2 fc bc = Inr (r2, t2) \<longrightarrow>
          c64_mem t1 r1 = c64_mem t2 r2 \<and>
          np_abs (c64_mem t1 r1) = np_abs (c64_mem t2 r2) \<and>
          f32_mem t1 = f32_mem s1 \<and> f32_mem t2 = f32_mem s2)"
proof (intro conjI allI impI)
  show eq: "outcome (st_decode s1 a1 fc bc) = outcome (st_decode s2 a2 fc bc)"
    by (simp only: st_decode_refines assms)
  show "outcome (st_decode s1 a1 fc bc) = decode (f32_mem s1 a1) fc bc"
    by (rule st_decode_refines)
  fix r1 t1 r2 t2
  assume "st_decode s1 a1 fc bc = Inr (r1, t1) \<and> st_decode s2 a2 fc bc = Inr (r2, t2)"
  then have run: "st_decode s1 a1 fc bc = Inr (r1, t1)" "st_decode s2 a2 fc bc = Inr (r2, t2)"
    by simp_all
  from eq show same: "c64_mem t1 r1 = c64_mem t2 r2"
    by (simp add: run outcome_def)
  then show "np_abs (c64_mem t1 r1) = np_abs (c64_mem t2 r2)"
    by simp
  show "f32_mem t1 = f32_mem s1"
    using run(1) by (rule st_decode_frame)
  show "f32_mem t2 = f32_mem s2"
    using run(2) by (rule st_decode_frame)
qed

theorem decode_deterministic_and_pure_witness:
  "f32_mem \<lparr>f32_mem = (\<lambda>a. if a = 0 then [Fin 1, Fin 0] else []), c64_mem = (\<lambda>a. []), next_free = 1\<rparr> 0 =
   f32_mem \<lparr>f32_mem = (\<lambda>a. if a = 5 then [Fin 1, Fin 0] else [Fin 7]), c64_mem = (\<lambda>a. [[C64 NaN NaN]]), next_free = 9\<rparr> 5 \<and>
   outcome (st_decode \<lparr>f32_mem = (\<lambda>a. if a = 0 then [Fin 1, Fin 0] else []), c64_mem = (\<lambda>a. []), next_free = 1\<rparr> 0 1 1) =
   outcome (st_decode \<lparr>f32_mem = (\<lambda>a. if a = 5 then [Fin 1, Fin 0] else [Fin 7]), c64_mem = (\<lambda>a. [[C64 NaN NaN]]), next_free = 9\<rparr> 5 1 1) \<and>
   outcome (st_decode \<lparr>f32_mem = (\<lambda>a. if a = 0 then [Fin 1, Fin 0] else []), c64_mem = (\<lambda>a. []), next_free = 1\<rparr> 0 1 1) =
   Inr [[C64 (Fin 1) (Fin 0)]]"
proof -
  let ?s1 = "\<lparr>f32_mem = (\<lambda>a. if a = 0 then [Fin 1, Fin 0] else []), c64_mem = (\<lambda>a. []), next_free = (1::nat)\<rparr>"
  let ?s2 = "\<lparr>f32_mem = (\<lambda>a. if a = 5 then [Fin 1, Fin 0] else [Fin 7]), c64_mem = (\<lambda>a. [[C64 NaN NaN]]), next_free = (9::nat)\<rparr>"
  have h: "f32_mem ?s1 0 = f32_mem ?s2 5"
    by simp
  have "decode [Fin 1, Fin 0] (int 1) (int 1) = Inr [[C64 (Fin 1) (Fin 0)]]"
    by (simp only: decode_exact) (simp add: pair_value)
  then have d: "decode (f32_mem ?s1 0) 1 1 = Inr [[C64 (Fin 1) (Fin 0)]]"
    by simp
  from decode_deterministic_and_pure [OF h, of 1 1] have
    "outcome (st_decode ?s1 0 1 1) = outcome (st_decode ?s2 5 1 1)"
    "outcome (st_decode ?s1 0 1 1) = decode (f32_mem ?s1 0) 1 1"
    by blast+
  with h d show ?thesis
    by simp
qed

end
